theory Spec2Isabelle
  imports Complex_Main "HOL-Library.Sublist"
begin

section \<open>Values exchanged with the collaborators\<close>

text \<open>
  The module \<^verbatim>\<open>celery/worker/consumer/__init__.py\<close> is glue: almost every statement is
  a call on a collaborator (logger, timer, ready queue, QoS object, broker message,
  connection, boot-step namespace). The embedding therefore makes the calls themselves
  the observable behaviour. Every method of the module returns the list of calls it
  performs, in program order, together with its result; what a collaborator answers
  (the value of \<^verbatim>\<open>task.revoked()\<close>, the result of \<^verbatim>\<open>to_timestamp\<close>, whether
  \<^verbatim>\<open>connect()\<close> raises) is an input of the model.
\<close>

text \<open>
  A raised exception: the names of the classes of the instance (its own class and all
  its base classes) and its message. An \<^verbatim>\<open>except\<close> clause with a tuple of classes
  catches the exception when one of the instance's classes is in the tuple.
\<close>

datatype exn = Exn (exn_classes: "string list") (exn_message: string)

definition exn_matches :: "exn \<Rightarrow> string list \<Rightarrow> bool" where
  "exn_matches e classes = list_ex (\<lambda>k. k \<in> set classes) (exn_classes e)"

text \<open>A \<^verbatim>\<open>datetime\<close> object, opaque to this module.\<close>

datatype datetime = Datetime int

text \<open>Python values that travel through dictionaries and keyword arguments.\<close>

datatype pyval =
    PNone
  | PInt int
  | PStr string
  | PSafeRepr pyval      \<comment> \<open>\<^verbatim>\<open>safe_repr(v)\<close>\<close>
  | PIsoformat datetime  \<comment> \<open>\<^verbatim>\<open>d.isoformat()\<close>\<close>

text \<open>A task request as \<^verbatim>\<open>on_task\<close> reads it.\<close>

record task =
  task_id :: string
  task_name :: string
  args :: pyval
  kwargs :: pyval
  request_dict :: "string \<rightharpoonup> pyval"
  eta :: "datetime option"
  expires :: "datetime option"
  revoked :: bool  \<comment> \<open>the answer of \<^verbatim>\<open>task.revoked()\<close>\<close>

text \<open>A broker message as \<^verbatim>\<open>on_decode_error\<close> reads it.\<close>

record message =
  content_type :: string
  content_encoding :: string
  body :: string

text \<open>
  An entry of \<^verbatim>\<open>parent.components\<close> that is truthy: its qualified name and the value of
  \<^verbatim>\<open>getattr(component, 'delay_shutdown', False)\<close>. What its \<^verbatim>\<open>shutdown(parent)\<close> does is
  \<open>shutdown_raises\<close>: \<open>None\<close> when it returns, \<open>Some e\<close> when it raises \<open>e\<close>.
\<close>

record component =
  qualname :: string
  delay_shutdown :: bool
  shutdown_raises :: "exn option"

datatype level = DEBUG | INFO | WARN | ERROR | CRITICAL

text \<open>The positional arguments of a logging call.\<close>

datatype logarg =
    AStr string
  | AExc exn
  | ATask task
  | AEta datetime
  | ATaskInfoSafe task    \<comment> \<open>\<^verbatim>\<open>task.info(safe=True)\<close>\<close>
  | ADumpBody message string  \<comment> \<open>\<^verbatim>\<open>dump_body(message, body)\<close>\<close>

text \<open>
  The calls the module makes on its collaborators. \<open>Log\<close> carries the level, the
  format string, the positional arguments and the \<^verbatim>\<open>exc_info\<close> flag.
\<close>

datatype call =
    Log level string "logarg list" bool
  | EventSend string "(string \<times> pyval) list"
  | TaskAcknowledge task
  | QosIncrementEventually
  | QosDecrementEventually
  | TimerApplyAt real task nat  \<comment> \<open>\<^verbatim>\<open>timer.apply_at(eta, self.apply_eta_task, (task, ), priority)\<close>\<close>
  | TaskReserved task
  | QuickPut task
  | MessageAck message
  | MessageRejectLogError message
  | ComponentShutdown component
  | UpdateStrategies
  | InitCallback
  | ComponentStart component
  | AppConnection real
  | Connect
  | EnsureConnection "nat option"
  | MaybeShutdown "exn option"
  | NsStart "exn option"
  | RunLoop "exn option"
  | NsRestart "exn option"

text \<open>
  The functions the module imports from \<^verbatim>\<open>celery.utils\<close>, which are not part of it:
  \<^verbatim>\<open>to_timestamp\<close> returns a timestamp or raises, \<^verbatim>\<open>humanize_seconds(secs, prefix, sep)\<close>
  returns a string.
\<close>

record env =
  to_timestamp :: "datetime \<Rightarrow> exn + real"
  humanize_seconds :: "real \<Rightarrow> string \<Rightarrow> string \<Rightarrow> string"

text \<open>
  A broker connection as the module uses it: \<^verbatim>\<open>as_uri()\<close>, the value of
  \<^verbatim>\<open>getattr(conn, 'alt', None)\<close> (\<open>None\<close> when the attribute is missing or is
  \<^verbatim>\<open>None\<close>), the mapping \<^verbatim>\<open>info()\<close> returns, what \<^verbatim>\<open>connect()\<close> does (\<open>None\<close> when
  it returns, \<open>Some e\<close> when it raises \<open>e\<close>), and \<^verbatim>\<open>ensure_connection\<close>: given the
  error callback, the retry bound and the calls of one run of the retry callback, the
  calls it causes and whether it raises. It returns the connection itself.
\<close>

record connection =
  as_uri :: string
  alt :: "string list option"
  conn_info :: "string \<rightharpoonup> pyval"
  connect :: "exn option"
  ensure_connection ::
    "(exn \<Rightarrow> real \<Rightarrow> call list) \<Rightarrow> nat option \<Rightarrow> call list \<Rightarrow> call list \<times> exn option"

text \<open>
  The Consumer: the attributes and the configuration the methods below read.
  \<open>app_connection\<close> is \<^verbatim>\<open>self.app.connection(heartbeat=...)\<close>, \<open>qos_value\<close> is
  \<^verbatim>\<open>self.qos.value\<close>, \<open>event_dispatcher_enabled\<close> is \<^verbatim>\<open>self.event_dispatcher.enabled\<close>,
  and the two upper-case fields are the settings of \<^verbatim>\<open>self.app.conf\<close>. An entry of
  \<open>components\<close> is \<open>None\<close> when the object in the list is falsy.
\<close>

record consumer =
  connection_errors :: "string list"
  channel_errors :: "string list"
  does_info :: bool
  event_dispatcher_enabled :: bool
  connection :: "connection option"
  qos_value :: int
  amqheartbeat :: real
  app_connection :: "real \<Rightarrow> connection"
  BROKER_CONNECTION_RETRY :: bool
  BROKER_CONNECTION_MAX_RETRIES :: "nat option"
  components :: "component option list"

section \<open>Module constants\<close>

definition CONNECTION_RETRY :: string where
  "CONNECTION_RETRY =
     ''consumer: Connection to broker lost. Trying to re-establish the connection...''"

definition CONNECTION_RETRY_STEP :: string where
  "CONNECTION_RETRY_STEP = ''Trying again {when}...''"

definition CONNECTION_ERROR :: string where
  "CONNECTION_ERROR = ''consumer: Cannot connect to %s: %s.'' @ [CHR 0x0A] @ ''%s'' @ [CHR 0x0A]"

definition CONNECTION_FAILOVER :: string where
  "CONNECTION_FAILOVER = ''Will retry using next failover.''"

section \<open>Task ingestion\<close>

text \<open>\<^verbatim>\<open>task.eta and task.eta.isoformat()\<close>: a datetime is always truthy.\<close>

definition and_isoformat :: "datetime option \<Rightarrow> pyval" where
  "and_isoformat d = (case d of None \<Rightarrow> PNone | Some x \<Rightarrow> PIsoformat x)"

definition task_received_fields :: "task \<Rightarrow> (string \<times> pyval) list" where
  "task_received_fields t =
     [(''uuid'', PStr (task_id t)),
      (''name'', PStr (task_name t)),
      (''args'', PSafeRepr (args t)),
      (''kwargs'', PSafeRepr (kwargs t)),
      (''retries'', (case request_dict t ''retries'' of None \<Rightarrow> PInt 0 | Some r \<Rightarrow> r)),
      (''eta'', and_isoformat (eta t)),
      (''expires'', and_isoformat (expires t))]"

text \<open>
  \<^verbatim>\<open>Consumer.on_task\<close>. The result is the list of calls made and the exception that
  leaves the method, if any: only \<^verbatim>\<open>OverflowError\<close> is caught around \<^verbatim>\<open>to_timestamp\<close>.
\<close>

definition on_task :: "env \<Rightarrow> consumer \<Rightarrow> task \<Rightarrow> call list \<times> exn option" where
  "on_task ev c t =
     (if revoked t then ([], None)
      else
        let pre =
          (if does_info c then [Log INFO ''Got task from broker: %s'' [ATask t] False] else []) @
          (if event_dispatcher_enabled c
           then [EventSend ''task-received'' (task_received_fields t)] else [])
        in
          (case eta t of
             Some d \<Rightarrow>
               (case to_timestamp ev d of
                  Inl exc \<Rightarrow>
                    if exn_matches exc [''OverflowError'']
                    then (pre @ [Log ERROR ''Couldn't convert eta %s to timestamp: %r. Task: %r''
                                   [AEta d, AExc exc, ATaskInfoSafe t] True,
                                 TaskAcknowledge t], None)
                    else (pre, Some exc)
                | Inr ts \<Rightarrow>
                    (pre @ [QosIncrementEventually, TimerApplyAt ts t 6], None))
           | None \<Rightarrow> (pre @ [TaskReserved t, QuickPut t], None)))"

text \<open>\<^verbatim>\<open>Consumer.apply_eta_task\<close>, the callback the timer runs.\<close>

definition apply_eta_task :: "task \<Rightarrow> call list" where
  "apply_eta_task t = [TaskReserved t, QuickPut t, QosDecrementEventually]"

text \<open>Which collaborator a call reaches.\<close>

fun touches_qos :: "call \<Rightarrow> bool" where
  "touches_qos QosIncrementEventually = True"
| "touches_qos QosDecrementEventually = True"
| "touches_qos _ = False"

fun touches_timer :: "call \<Rightarrow> bool" where
  "touches_timer (TimerApplyAt ts t p) = True"
| "touches_timer _ = False"

fun touches_ready_queue :: "call \<Rightarrow> bool" where
  "touches_ready_queue (QuickPut t) = True"
| "touches_ready_queue _ = False"

fun is_log :: "call \<Rightarrow> bool" where
  "is_log (Log l m as x) = True"
| "is_log _ = False"

fun is_event_send :: "call \<Rightarrow> bool" where
  "is_event_send (EventSend n fs) = True"
| "is_event_send _ = False"

fun is_increment :: "call \<Rightarrow> bool" where
  "is_increment QosIncrementEventually = True"
| "is_increment _ = False"

fun is_decrement :: "call \<Rightarrow> bool" where
  "is_decrement QosDecrementEventually = True"
| "is_decrement _ = False"

text \<open>
  The net change the calls of a trace ask of the QoS object: one up for each
  \<^verbatim>\<open>increment_eventually()\<close>, one down for each \<^verbatim>\<open>decrement_eventually()\<close>.
\<close>

definition qos_delta :: "call list \<Rightarrow> int" where
  "qos_delta tr = int (length (filter is_increment tr)) - int (length (filter is_decrement tr))"

text \<open>
  A history of the ETA path: a task is handed to \<^verbatim>\<open>on_task\<close>, or the timer fires and
  runs \<^verbatim>\<open>apply_eta_task\<close> on a task.
\<close>

datatype op = Ingest task | Fire task

fun is_ingest :: "op \<Rightarrow> bool" where
  "is_ingest (Ingest t) = True"
| "is_ingest (Fire t) = False"

fun is_fire :: "op \<Rightarrow> bool" where
  "is_fire (Fire t) = True"
| "is_fire (Ingest t) = False"

fun run_op :: "env \<Rightarrow> consumer \<Rightarrow> op \<Rightarrow> call list" where
  "run_op ev c (Ingest t) = fst (on_task ev c t)"
| "run_op ev c (Fire t) = apply_eta_task t"

fun run :: "env \<Rightarrow> consumer \<Rightarrow> op list \<Rightarrow> call list" where
  "run ev c [] = []"
| "run ev c (x # xs) = run_op ev c x @ run ev c xs"

text \<open>
  An ingestion is a successful ETA ingestion when the task is not revoked, has an eta,
  and \<^verbatim>\<open>to_timestamp\<close> returns for it.
\<close>

definition eta_scheduled :: "env \<Rightarrow> task \<Rightarrow> bool" where
  "eta_scheduled ev t =
     (\<not> revoked t \<and>
      (case eta t of
         None \<Rightarrow> False
       | Some d \<Rightarrow> (case to_timestamp ev d of Inl exc \<Rightarrow> False | Inr ts \<Rightarrow> True)))"

fun successful :: "env \<Rightarrow> op \<Rightarrow> bool" where
  "successful ev (Ingest t) = eta_scheduled ev t"
| "successful ev (Fire t) = True"

section \<open>Shutdown of the boot steps\<close>

text \<open>
  \<^verbatim>\<open>Namespace._shutdown_step\<close>: the loop over \<open>components\<close>, with the list \<open>delayed\<close>
  built so far. A falsy entry is skipped. The result is the calls made and either the
  exception a \<^verbatim>\<open>component.shutdown(parent)\<close> raised, which ends the loop, or the final
  list \<open>delayed\<close>.
\<close>

fun shutdown_step ::
  "bool \<Rightarrow> component option list \<Rightarrow> component list \<Rightarrow> call list \<times> (exn + component list)"
where
  "shutdown_step force [] delayed = ([], Inr delayed)"
| "shutdown_step force (None # cs) delayed = shutdown_step force cs delayed"
| "shutdown_step force (Some x # cs) delayed =
     (let dbg = Log DEBUG ''Shutdown %s...'' [AStr (qualname x)] False in
      if \<not> force \<and> delay_shutdown x
      then (case shutdown_step force cs (delayed @ [x]) of (tr, r) \<Rightarrow> (dbg # tr, r))
      else
        (case shutdown_raises x of
           Some e \<Rightarrow> ([dbg, ComponentShutdown x], Inl e)
         | None \<Rightarrow>
             (case shutdown_step force cs delayed of
                (tr, r) \<Rightarrow> (dbg # ComponentShutdown x # tr, r))))"

text \<open>
  \<^verbatim>\<open>Namespace.shutdown\<close>: a first pass over \<^verbatim>\<open>parent.components\<close> without force, then a
  pass with force over the list the first pass returned. The result is the calls made
  and the exception that leaves the method, if any.
\<close>

definition shutdown :: "consumer \<Rightarrow> call list \<times> exn option" where
  "shutdown parent =
     (case shutdown_step False (components parent) [] of
        (tr1, Inl e) \<Rightarrow> (tr1, Some e)
      | (tr1, Inr delayed) \<Rightarrow>
          (case shutdown_step True (map Some delayed) [] of
             (tr2, Inl e) \<Rightarrow> (tr1 @ tr2, Some e)
           | (tr2, Inr d) \<Rightarrow> (tr1 @ tr2, None)))"

text \<open>The components whose \<^verbatim>\<open>shutdown\<close> a trace calls, in order.\<close>

fun shutdowns :: "call list \<Rightarrow> component list" where
  "shutdowns [] = []"
| "shutdowns (ComponentShutdown x # tr) = x # shutdowns tr"
| "shutdowns (y # tr) = shutdowns tr"

text \<open>The truthy entries of a component list, in order.\<close>

fun present :: "component option list \<Rightarrow> component list" where
  "present [] = []"
| "present (None # cs) = present cs"
| "present (Some x # cs) = x # present cs"

section \<open>The supervisory loop\<close>

text \<open>
  Modelled from the spec: the lifecycle states of the namespace
  (\<^verbatim>\<open>celery.worker.bootsteps\<close> is not among the sources; the module imports only
  \<^verbatim>\<open>CLOSE\<close> from it). The spec lists the states init, start, stop and close.
\<close>

datatype lifecycle = INIT | START | STOP | CLOSE

text \<open>
  What \<^verbatim>\<open>Consumer.start\<close> calls and cannot see into, over a state \<open>'w\<close> of the world
  outside the module: reading \<^verbatim>\<open>ns.state\<close>, and the calls \<^verbatim>\<open>maybe_shutdown()\<close>,
  \<^verbatim>\<open>ns.start(self)\<close>, \<^verbatim>\<open>loop(*loop_args)\<close> and \<^verbatim>\<open>self.restart()\<close>, each of which changes
  the world and either returns (\<open>None\<close>) or raises (\<open>Some e\<close>).
\<close>

record 'w collaborators =
  ns_state :: "'w \<Rightarrow> lifecycle"
  maybe_shutdown :: "'w \<Rightarrow> exn option \<times> 'w"
  ns_start :: "'w \<Rightarrow> exn option \<times> 'w"
  run_loop :: "'w \<Rightarrow> exn option \<times> 'w"
  restart :: "'w \<Rightarrow> exn option \<times> 'w"

text \<open>The body of the \<^verbatim>\<open>try\<close>: \<^verbatim>\<open>ns.start(self)\<close>, then \<^verbatim>\<open>loop(*loop_args)\<close>.\<close>

definition try_body :: "'w collaborators \<Rightarrow> 'w \<Rightarrow> call list \<times> exn option \<times> 'w" where
  "try_body k w =
     (case ns_start k w of
        (Some e, w1) \<Rightarrow> ([NsStart (Some e)], Some e, w1)
      | (None, w1) \<Rightarrow> (case run_loop k w1 of (r, w2) \<Rightarrow> ([NsStart None, RunLoop r], r, w2)))"

text \<open>\<^verbatim>\<open>except self.connection_errors + self.channel_errors\<close>.\<close>

definition broker_error :: "consumer \<Rightarrow> exn \<Rightarrow> bool" where
  "broker_error c e = exn_matches e (connection_errors c @ channel_errors c)"

definition prepend :: "call list \<Rightarrow> (call list \<times> 'a) option \<Rightarrow> (call list \<times> 'a) option" where
  "prepend tr r = (case r of None \<Rightarrow> None | Some (tr', x) \<Rightarrow> Some (tr @ tr', x))"

text \<open>
  \<^verbatim>\<open>Consumer.start\<close>. Before the loop the method only reads attributes. \<^verbatim>\<open>maybe_shutdown()\<close>
  and \<^verbatim>\<open>self.restart()\<close> stand outside the \<^verbatim>\<open>try\<close>, so what they raise leaves the method
  whatever its class. The loop need not end, so the function takes a bound on the number
  of tests of the loop condition and is \<open>None\<close> when the bound is used up. Otherwise the
  result is the calls made, the exception that leaves \<^verbatim>\<open>start()\<close>, if any, and the
  world at that point.
\<close>

fun start ::
  "'w collaborators \<Rightarrow> consumer \<Rightarrow> nat \<Rightarrow> 'w \<Rightarrow> (call list \<times> exn option \<times> 'w) option"
where
  "start k c 0 w = None"
| "start k c (Suc n) w =
     (if ns_state k w = CLOSE then Some ([], None, w)
      else
        (case maybe_shutdown k w of
           (Some e, w1) \<Rightarrow> Some ([MaybeShutdown (Some e)], Some e, w1)
         | (None, w1) \<Rightarrow>
             (case try_body k w1 of
                (tr, None, w2) \<Rightarrow> prepend (MaybeShutdown None # tr) (start k c n w2)
              | (tr, Some e, w2) \<Rightarrow>
                  if broker_error c e
                  then
                    (let tr' = MaybeShutdown None # tr @ [Log ERROR CONNECTION_RETRY [] True] in
                     case restart k w2 of
                       (Some e', w3) \<Rightarrow> Some (tr' @ [NsRestart (Some e')], Some e', w3)
                     | (None, w3) \<Rightarrow> prepend (tr' @ [NsRestart None]) (start k c n w3))
                  else Some (MaybeShutdown None # tr, Some e, w2))))"

text \<open>
  The traces the description of the loop allows, with the exception that leaves
  \<^verbatim>\<open>start()\<close>. A trace is a sequence of iterations. An iteration begins with
  \<^verbatim>\<open>maybe_shutdown()\<close>, whose exception ends the trace and propagates. Then come the boot
  steps and the event loop. When both return, the next iteration follows. When one of
  them raises a broker error, the ERROR log with \<open>CONNECTION_RETRY\<close> and the call of
  \<^verbatim>\<open>restart()\<close> come next, and then the next iteration (or the end, with the exception
  \<^verbatim>\<open>restart()\<close> raised). When one of them raises anything else, the trace ends and that
  exception propagates. The empty trace is the exit of the loop.
\<close>

text \<open>
  The traces the description of the loop allows, with the exception that leaves
  \<^verbatim>\<open>start()\<close>. A trace is a sequence of iterations. An iteration begins with
  \<^verbatim>\<open>maybe_shutdown()\<close>, whose exception ends the trace and propagates. Then come the boot
  steps and the event loop (\<open>body_calls\<close>). When both return, the next iteration
  follows. When one of them raises a broker error, the ERROR log with
  \<open>CONNECTION_RETRY\<close> and the call of \<^verbatim>\<open>restart()\<close> come next (\<open>handler_calls\<close>), and
  then the next iteration, or the end with the exception \<^verbatim>\<open>restart()\<close> raised. When one
  of them raises anything else, the trace ends there and that exception propagates. The
  empty trace is the exit of the loop.
\<close>

fun body_calls :: "call list \<Rightarrow> (exn option \<times> call list) option" where
  "body_calls (NsStart (Some e) # xs) = Some (Some e, xs)"
| "body_calls (NsStart None # RunLoop r # xs) = Some (r, xs)"
| "body_calls xs = None"

fun handler_calls :: "call list \<Rightarrow> (exn option \<times> call list) option" where
  "handler_calls (Log l m as ei # NsRestart r # xs) =
     (if l = ERROR \<and> m = CONNECTION_RETRY \<and> as = [] \<and> ei then Some (r, xs) else None)"
| "handler_calls xs = None"

lemma body_calls_shorter:
  "body_calls xs = Some (r, ys) \<Longrightarrow> length ys < length xs"
  by (induction xs rule: body_calls.induct) auto

lemma handler_calls_shorter:
  "handler_calls xs = Some (r, ys) \<Longrightarrow> length ys < length xs"
  by (induction xs rule: handler_calls.induct) (auto split: if_splits)

function supervised :: "consumer \<Rightarrow> call list \<Rightarrow> exn option \<Rightarrow> bool" where
  "supervised c [] out = (out = None)"
| "supervised c (x # xs) out =
     (case x of
        MaybeShutdown (Some e) \<Rightarrow> xs = [] \<and> out = Some e
      | MaybeShutdown None \<Rightarrow>
          (case body_calls xs of
             None \<Rightarrow> False
           | Some (None, ys) \<Rightarrow> supervised c ys out
           | Some (Some e, ys) \<Rightarrow>
               if broker_error c e
               then (case handler_calls ys of
                       None \<Rightarrow> False
                     | Some (Some e', zs) \<Rightarrow> zs = [] \<and> out = Some e'
                     | Some (None, zs) \<Rightarrow> supervised c zs out)
               else ys = [] \<and> out = Some e)
      | _ \<Rightarrow> False)"
  by pat_completeness auto
termination
  apply (relation "measure (\<lambda>(c, tr, out). length tr)")
    apply simp
   apply (auto dest!: body_calls_shorter handler_calls_shorter)
  done

text \<open>
  The executions of the loop, as the description has them, over the world of the
  collaborators: \<open>runs k c w tr out w'\<close> when, entered in world \<open>w\<close>, the loop makes
  the calls \<open>tr\<close> and ends in world \<open>w'\<close>, normally (\<open>None\<close>) or with the exception
  that leaves \<^verbatim>\<open>start()\<close>. The loop is left when the state is \<open>CLOSE\<close> at its test.
  Otherwise \<^verbatim>\<open>maybe_shutdown()\<close> runs, and its exception leaves. Otherwise the boot steps
  and the event loop run; when they return the loop goes on from its test; when they
  raise a broker error, the ERROR log and \<^verbatim>\<open>restart()\<close> follow and the loop goes on from
  its test, unless \<^verbatim>\<open>restart()\<close> raises, which leaves; when they raise anything else, that
  exception leaves.
\<close>

inductive runs ::
  "'w collaborators \<Rightarrow> consumer \<Rightarrow> 'w \<Rightarrow> call list \<Rightarrow> exn option \<Rightarrow> 'w \<Rightarrow> bool"
  for k :: "'w collaborators" and c :: consumer
where
  closed:
    "ns_state k w = CLOSE \<Longrightarrow> runs k c w [] None w"
| shutdown_signal:
    "ns_state k w \<noteq> CLOSE \<Longrightarrow> maybe_shutdown k w = (Some e, w1) \<Longrightarrow>
     runs k c w [MaybeShutdown (Some e)] (Some e) w1"
| iterate:
    "ns_state k w \<noteq> CLOSE \<Longrightarrow> maybe_shutdown k w = (None, w1) \<Longrightarrow>
     try_body k w1 = (tb, None, w2) \<Longrightarrow>
     runs k c w2 tr out w' \<Longrightarrow>
     runs k c w (MaybeShutdown None # tb @ tr) out w'"
| retry:
    "ns_state k w \<noteq> CLOSE \<Longrightarrow> maybe_shutdown k w = (None, w1) \<Longrightarrow>
     try_body k w1 = (tb, Some e, w2) \<Longrightarrow> broker_error c e \<Longrightarrow>
     restart k w2 = (None, w3) \<Longrightarrow>
     runs k c w3 tr out w' \<Longrightarrow>
     runs k c w
       (MaybeShutdown None # tb @ Log ERROR CONNECTION_RETRY [] True # NsRestart None # tr)
       out w'"
| restart_raises:
    "ns_state k w \<noteq> CLOSE \<Longrightarrow> maybe_shutdown k w = (None, w1) \<Longrightarrow>
     try_body k w1 = (tb, Some e, w2) \<Longrightarrow> broker_error c e \<Longrightarrow>
     restart k w2 = (Some e', w3) \<Longrightarrow>
     runs k c w
       (MaybeShutdown None # tb @ [Log ERROR CONNECTION_RETRY [] True, NsRestart (Some e')])
       (Some e') w3"
| propagate:
    "ns_state k w \<noteq> CLOSE \<Longrightarrow> maybe_shutdown k w = (None, w1) \<Longrightarrow>
     try_body k w1 = (tb, Some e, w2) \<Longrightarrow> \<not> broker_error c e \<Longrightarrow>
     runs k c w (MaybeShutdown None # tb) (Some e) w2"

code_pred (modes: i \<Rightarrow> i \<Rightarrow> i \<Rightarrow> o \<Rightarrow> o \<Rightarrow> o \<Rightarrow> bool) runs .

section \<open>Establishing the connection\<close>

text \<open>
  \<^verbatim>\<open>next_step.format(when=w)\<close> for a template whose only braces are \<^verbatim>\<open>{when}\<close> fields, as
  in the two templates of the module: every \<^verbatim>\<open>{when}\<close> is replaced by \<open>w\<close>.
\<close>

fun format_when :: "string \<Rightarrow> string \<Rightarrow> string" where
  "format_when [] w = []"
| "format_when (x # xs) w =
     (if take 6 (x # xs) = ''{when}'' then w @ format_when (drop 5 xs) w
      else x # format_when xs w)"

text \<open>The truth value of \<^verbatim>\<open>getattr(conn, 'alt', None)\<close>: a non-empty list.\<close>

definition alt_truthy :: "connection \<Rightarrow> bool" where
  "alt_truthy conn = (case alt conn of None \<Rightarrow> False | Some hosts \<Rightarrow> hosts \<noteq> [])"

text \<open>
  \<^verbatim>\<open>_error_handler\<close>, the closure of \<^verbatim>\<open>_open_connection\<close> over \<open>conn\<close>. Its third
  parameter \<open>next_step\<close> has the default \<open>CONNECTION_RETRY_STEP\<close>; \<open>None\<close> stands for
  a call with two arguments.
\<close>

definition error_handler :: "env \<Rightarrow> connection \<Rightarrow> exn \<Rightarrow> real \<Rightarrow> string option \<Rightarrow> call" where
  "error_handler ev conn exc interval next_step_arg =
     (let next_step0 = (case next_step_arg of None \<Rightarrow> CONNECTION_RETRY_STEP | Some s \<Rightarrow> s);
          next_step = (if alt_truthy conn \<and> interval = 0 then CONNECTION_FAILOVER else next_step0)
      in Log ERROR CONNECTION_ERROR
           [AStr (as_uri conn), AExc exc,
            AStr (format_when next_step (humanize_seconds ev interval ''in'' '' ''))]
           False)"

text \<open>
  \<^verbatim>\<open>Consumer._open_connection\<close>. The result is the calls made and either the exception
  that leaves the method or the connection returned. \<^verbatim>\<open>ensure_connection\<close> is handed the
  error handler, which it calls with an exception and an interval, the retry bound and
  \<^verbatim>\<open>maybe_shutdown\<close> as the callback.
\<close>

definition open_connection :: "env \<Rightarrow> consumer \<Rightarrow> call list \<times> (exn + connection)" where
  "open_connection ev c =
     (let conn = app_connection c (amqheartbeat c) in
      if \<not> BROKER_CONNECTION_RETRY c
      then
        (case connect conn of
           Some e \<Rightarrow> ([AppConnection (amqheartbeat c), Connect], Inl e)
         | None \<Rightarrow> ([AppConnection (amqheartbeat c), Connect], Inr conn))
      else
        (case ensure_connection conn (\<lambda>exc interval. [error_handler ev conn exc interval None])
                (BROKER_CONNECTION_MAX_RETRIES c) [MaybeShutdown None] of
           (tr, Some e) \<Rightarrow>
             (AppConnection (amqheartbeat c) # EnsureConnection (BROKER_CONNECTION_MAX_RETRIES c) # tr,
              Inl e)
         | (tr, None) \<Rightarrow>
             (AppConnection (amqheartbeat c) # EnsureConnection (BROKER_CONNECTION_MAX_RETRIES c) # tr,
              Inr conn)))"

fun retry_machinery :: "call \<Rightarrow> bool" where
  "retry_machinery (EnsureConnection n) = True"
| "retry_machinery (Log l m as ei) = True"
| "retry_machinery (MaybeShutdown r) = True"
| "retry_machinery _ = False"

fun is_connect :: "call \<Rightarrow> bool" where
  "is_connect Connect = True"
| "is_connect _ = False"

section \<open>Message classifiers\<close>

text \<open>\<^verbatim>\<open>Consumer.on_decode_error\<close>.\<close>

definition on_decode_error :: "message \<Rightarrow> exn \<Rightarrow> call list" where
  "on_decode_error m exc =
     [Log CRITICAL ''Can't decode message body: %r (type:%r encoding:%r raw:%r')''
        [AExc exc, AStr (content_type m), AStr (content_encoding m), ADumpBody m (body m)]
        False,
      MessageAck m]"

definition UNKNOWN_TASK_ERROR :: string where
  "UNKNOWN_TASK_ERROR =
     ''Received unregistered task of type %s.'' @ [CHR 0x0A] @
     ''The message has been ignored and discarded.'' @ [CHR 0x0A, CHR 0x0A] @
     ''Did you remember to import the module containing this task?'' @ [CHR 0x0A] @
     ''Or maybe you are using relative imports?'' @ [CHR 0x0A] @
     ''Please see http://bit.ly/gLye1c for more information.'' @ [CHR 0x0A, CHR 0x0A] @
     ''The full contents of the message body was:'' @ [CHR 0x0A] @ ''%s'' @ [CHR 0x0A]"

text \<open>
  \<^verbatim>\<open>Consumer.handle_unknown_task\<close>, the sibling of \<^verbatim>\<open>on_decode_error\<close> that rejects the
  message instead of acknowledging it.
\<close>

definition handle_unknown_task :: "string \<Rightarrow> message \<Rightarrow> exn \<Rightarrow> call list" where
  "handle_unknown_task b m exc =
     [Log ERROR UNKNOWN_TASK_ERROR [AExc exc, ADumpBody m b] True, MessageRejectLogError m]"

fun is_reject :: "call \<Rightarrow> bool" where
  "is_reject (MessageRejectLogError m) = True"
| "is_reject _ = False"

section \<open>Introspection\<close>

text \<open>The values of the dictionary \<^verbatim>\<open>info\<close> returns: a dictionary or an integer.\<close>

datatype infoval = VDict "string \<rightharpoonup> pyval" | VInt int

text \<open>
  The property \<^verbatim>\<open>Consumer.info\<close>. \<^verbatim>\<open>conninfo.pop('password', None)\<close> removes the key when
  it is there and does nothing otherwise.
\<close>

definition info :: "consumer \<Rightarrow> (string \<rightharpoonup> infoval)" where
  "info c =
     (let conninfo =
        (case connection c of
           None \<Rightarrow> Map.empty
         | Some conn \<Rightarrow> (conn_info conn)(''password'' := None))
      in [''broker'' \<mapsto> VDict conninfo, ''prefetch_count'' \<mapsto> VInt (qos_value c)])"

section \<open>The start hook\<close>

text \<open>
  \<^verbatim>\<open>Consumer.on_start\<close>: \<^verbatim>\<open>self.update_strategies()\<close>, then \<^verbatim>\<open>self.init_callback(self)\<close>.
\<close>

definition on_start :: "call list" where
  "on_start = [UpdateStrategies, InitCallback]"

text \<open>
  Modelled from the spec: \<^verbatim>\<open>Namespace.start\<close> of \<^verbatim>\<open>celery.worker.bootsteps\<close>, which is
  not among the sources. \<^verbatim>\<open>Consumer.__init__\<close> hands \<^verbatim>\<open>self.on_start\<close> to the namespace as
  its \<^verbatim>\<open>on_start\<close> hook; by the spec a start of the namespace rebuilds the strategies,
  which only the hook does, and starts all boot steps in order. So a start runs the
  hook and then starts every truthy component.
\<close>

definition namespace_start :: "call list \<Rightarrow> consumer \<Rightarrow> call list" where
  "namespace_start hook parent = hook @ map ComponentStart (present (components parent))"

text \<open>
  The calls of \<open>n\<close> starts of the namespace in a row: the first boot and the starts
  that follow each \<^verbatim>\<open>restart()\<close> in \<^verbatim>\<open>Consumer.start\<close>.
\<close>

fun starts :: "nat \<Rightarrow> consumer \<Rightarrow> call list" where
  "starts 0 parent = []"
| "starts (Suc n) parent = namespace_start on_start parent @ starts n parent"

fun is_init_callback :: "call \<Rightarrow> bool" where
  "is_init_callback InitCallback = True"
| "is_init_callback _ = False"

section \<open>Example inputs\<close>

definition overflow :: exn where
  "overflow =
     Exn [''OverflowError'', ''ArithmeticError'', ''StandardError'', ''Exception'']
       ''mktime argument out of range''"

definition refused :: exn where
  "refused = Exn [''error'', ''IOError'', ''EnvironmentError'', ''StandardError'', ''Exception'']
       ''[Errno 111] Connection refused''"

definition key_error :: exn where
  "key_error = Exn [''KeyError'', ''LookupError'', ''StandardError'', ''Exception''] ''hub''"

definition example_env :: env where
  "example_env =
     \<lparr>to_timestamp =
        (\<lambda>d. case d of Datetime n \<Rightarrow> if n < 2147483648 then Inr (real_of_int n) else Inl overflow),
      humanize_seconds =
        (\<lambda>secs prefix sep. if secs < 1 then ''now'' else prefix @ sep @ ''2.00 seconds'')\<rparr>"

definition example_task :: "datetime option \<Rightarrow> bool \<Rightarrow> task" where
  "example_task e r =
     \<lparr>task_id = ''4cc7438e'', task_name = ''tasks.add'', args = PStr ''(2, 3)'',
      kwargs = PStr ''{}'', request_dict = [''retries'' \<mapsto> PInt 0], eta = e,
      expires = None, revoked = r\<rparr>"

definition example_message :: message where
  "example_message =
     \<lparr>content_type = ''application/json'', content_encoding = ''utf-8'', body = ''{]''\<rparr>"

definition example_connection :: "string list \<Rightarrow> exn option \<Rightarrow> connection" where
  "example_connection hosts r =
     \<lparr>as_uri = ''amqp://guest@localhost:5672//'',
      alt = Some hosts,
      conn_info = [''hostname'' \<mapsto> PStr ''localhost'', ''password'' \<mapsto> PStr ''guest''],
      connect = r,
      ensure_connection = (\<lambda>errback max_retries callback. (errback refused 2 @ callback, None))\<rparr>"

definition example_component :: "string \<Rightarrow> bool \<Rightarrow> component" where
  "example_component n d = \<lparr>qualname = n, delay_shutdown = d, shutdown_raises = None\<rparr>"

definition example_consumer :: "bool \<Rightarrow> consumer" where
  "example_consumer retry =
     \<lparr>connection_errors = [''error'', ''ConnectionError''],
      channel_errors = [''ChannelError''],
      does_info = True,
      event_dispatcher_enabled = False,
      connection = Some (example_connection [] None),
      qos_value = 8,
      amqheartbeat = 0,
      app_connection = (\<lambda>hb. example_connection [] (Some refused)),
      BROKER_CONNECTION_RETRY = retry,
      BROKER_CONNECTION_MAX_RETRIES = Some 100,
      components =
        [Some (example_component ''Connection'' False),
         None,
         Some (example_component ''Tasks'' True),
         Some (example_component ''Heart'' False)]\<rparr>"

text \<open>
  A world that counts the runs of the event loop: the first run raises a broker error,
  the second returns, and the namespace is closed from then on.
\<close>

definition example_world :: "nat collaborators" where
  "example_world =
     \<lparr>ns_state = (\<lambda>w. if 2 \<le> w then CLOSE else START),
      maybe_shutdown = (\<lambda>w. (None, w)),
      ns_start = (\<lambda>w. (None, w)),
      run_loop = (\<lambda>w. (if w = 0 then Some refused else None, Suc w)),
      restart = (\<lambda>w. (None, w))\<rparr>"

section \<open>Properties of task ingestion\<close>

text \<open>
  C3. A task that is not revoked and whose eta makes \<^verbatim>\<open>to_timestamp\<close> raise
  \<^verbatim>\<open>OverflowError\<close>: \<^verbatim>\<open>on_task\<close> returns normally; its last two calls are the ERROR log,
  which carries the eta, the exception and the task's safe info, and then
  \<^verbatim>\<open>task.acknowledge()\<close>; everything before them is a log or an event; and no call
  reaches the QoS object, the timer or the ready queue.
\<close>

theorem on_task_eta_overflow:
  assumes "\<not> revoked t" and "eta t = Some d"
    and "to_timestamp ev d = Inl exc" and "exn_matches exc [''OverflowError'']"
  shows "snd (on_task ev c t) = None \<and>
         (\<exists>pre. fst (on_task ev c t) =
                 pre @ [Log ERROR ''Couldn't convert eta %s to timestamp: %r. Task: %r''
                          [AEta d, AExc exc, ATaskInfoSafe t] True,
                        TaskAcknowledge t] \<and>
               list_all (\<lambda>x. is_log x \<or> is_event_send x) pre) \<and>
         list_all (\<lambda>x. \<not> touches_qos x \<and> \<not> touches_timer x \<and> \<not> touches_ready_queue x)
           (fst (on_task ev c t))"
  using assms by (simp add: on_task_def Let_def)

text \<open>
  C5. A task whose \<^verbatim>\<open>revoked()\<close> is true: \<^verbatim>\<open>on_task\<close> returns at once, having called
  nothing: no log, no event, nothing on the timer, the ready queue or the QoS object.
\<close>

theorem on_task_revoked:
  assumes "revoked t"
  shows "on_task ev c t = ([], None)"
  using assms by (simp add: on_task_def)

lemma on_task_scheduled:
  assumes "eta_scheduled ev t"
  shows "snd (on_task ev c t) = None \<and>
         length (filter is_increment (fst (on_task ev c t))) = 1 \<and>
         length (filter is_decrement (fst (on_task ev c t))) = 0"
  using assms
  by (auto simp: on_task_def eta_scheduled_def Let_def split: option.splits sum.splits)

lemma apply_eta_task_counts:
  "length (filter is_increment (apply_eta_task t)) = 0 \<and>
   length (filter is_decrement (apply_eta_task t)) = 1"
  by (simp add: apply_eta_task_def)

lemma run_counts:
  assumes "list_all (successful ev) ops"
  shows "length (filter is_increment (run ev c ops)) = length (filter is_ingest ops) \<and>
         length (filter is_decrement (run ev c ops)) = length (filter is_fire ops)"
  using assms
proof (induction ops)
  case Nil
  then show ?case by simp
next
  case (Cons x xs)
  then have xs: "length (filter is_increment (run ev c xs)) = length (filter is_ingest xs)"
      "length (filter is_decrement (run ev c xs)) = length (filter is_fire xs)"
    by simp_all
  show ?case
  proof (cases x)
    case (Ingest t)
    with Cons.prems have "eta_scheduled ev t" by simp
    from on_task_scheduled [OF this, of c] show ?thesis
      using Ingest xs by simp
  next
    case (Fire t)
    then show ?thesis
      using xs apply_eta_task_counts [of t] by simp
  qed
qed

text \<open>
  C4. In a history of successful ETA ingestions and timer fires, every ingestion
  returns normally with exactly one \<^verbatim>\<open>qos.increment_eventually()\<close> among its calls,
  every fire is the three calls \<^verbatim>\<open>task_reserved\<close>, ready-queue put,
  \<^verbatim>\<open>qos.decrement_eventually()\<close> in that order, and the net QoS change of the whole
  history is the number of ingestions minus the number of fires.
\<close>

theorem qos_balance:
  assumes "list_all (successful ev) ops"
  shows "qos_delta (run ev c ops) =
           int (length (filter is_ingest ops)) - int (length (filter is_fire ops)) \<and>
         list_all (\<lambda>x. case x of
             Ingest t \<Rightarrow> snd (on_task ev c t) = None \<and>
                         length (filter is_increment (run_op ev c x)) = 1 \<and>
                         length (filter is_decrement (run_op ev c x)) = 0
           | Fire t \<Rightarrow> run_op ev c x = [TaskReserved t, QuickPut t, QosDecrementEventually])
           ops"
proof -
  have "qos_delta (run ev c ops) =
          int (length (filter is_ingest ops)) - int (length (filter is_fire ops))"
    using run_counts [OF assms, of c] by (simp add: qos_delta_def)
  moreover have "list_all (\<lambda>x. case x of
             Ingest t \<Rightarrow> snd (on_task ev c t) = None \<and>
                         length (filter is_increment (run_op ev c x)) = 1 \<and>
                         length (filter is_decrement (run_op ev c x)) = 0
           | Fire t \<Rightarrow> run_op ev c x = [TaskReserved t, QuickPut t, QosDecrementEventually])
           ops"
    unfolding list_all_iff
  proof
    fix x assume "x \<in> set ops"
    with assms have s: "successful ev x" by (simp add: list_all_iff)
    show "case x of
             Ingest t \<Rightarrow> snd (on_task ev c t) = None \<and>
                         length (filter is_increment (run_op ev c x)) = 1 \<and>
                         length (filter is_decrement (run_op ev c x)) = 0
           | Fire t \<Rightarrow> run_op ev c x = [TaskReserved t, QuickPut t, QosDecrementEventually]"
    proof (cases x)
      case (Ingest t)
      with s have "eta_scheduled ev t" by simp
      from on_task_scheduled [OF this, of c] show ?thesis using Ingest by simp
    next
      case (Fire t)
      then show ?thesis by (simp add: apply_eta_task_def)
    qed
  qed
  ultimately show ?thesis by simp
qed


theorem on_task_eta_overflow_witness:
  "\<not> revoked (example_task (Some (Datetime 99999999999)) False) \<and>
   eta (example_task (Some (Datetime 99999999999)) False) = Some (Datetime 99999999999) \<and>
   to_timestamp example_env (Datetime 99999999999) = Inl overflow \<and>
   exn_matches overflow [''OverflowError''] \<and>
   on_task example_env (example_consumer True) (example_task (Some (Datetime 99999999999)) False) =
     ([Log INFO ''Got task from broker: %s''
         [ATask (example_task (Some (Datetime 99999999999)) False)] False,
       Log ERROR ''Couldn't convert eta %s to timestamp: %r. Task: %r''
         [AEta (Datetime 99999999999), AExc overflow,
          ATaskInfoSafe (example_task (Some (Datetime 99999999999)) False)] True,
       TaskAcknowledge (example_task (Some (Datetime 99999999999)) False)], None)"
proof -
  let ?t = "example_task (Some (Datetime 99999999999)) False"
  have h1: "\<not> revoked ?t" by (simp add: example_task_def)
  have h2: "eta ?t = Some (Datetime 99999999999)" by (simp add: example_task_def)
  have h3: "to_timestamp example_env (Datetime 99999999999) = Inl overflow"
    by (simp add: example_env_def)
  have h4: "exn_matches overflow [''OverflowError'']"
    by (simp add: exn_matches_def overflow_def)
  from on_task_eta_overflow [OF h1 h2 h3 h4, of "example_consumer True"]
  obtain pre where
    tr: "fst (on_task example_env (example_consumer True) ?t) =
           pre @ [Log ERROR ''Couldn't convert eta %s to timestamp: %r. Task: %r''
                    [AEta (Datetime 99999999999), AExc overflow, ATaskInfoSafe ?t] True,
                  TaskAcknowledge ?t]"
    and out: "snd (on_task example_env (example_consumer True) ?t) = None"
    by blast
  have "pre = [Log INFO ''Got task from broker: %s'' [ATask ?t] False]"
    using tr h1 h2 h3 h4 by (simp add: on_task_def example_consumer_def)
  with tr out h1 h2 h3 h4 show ?thesis by (simp add: prod_eq_iff)
qed

theorem on_task_revoked_witness:
  "revoked (example_task (Some (Datetime 1700000000)) True) \<and>
   on_task example_env (example_consumer True) (example_task (Some (Datetime 1700000000)) True) =
     ([], None)"
proof -
  have h: "revoked (example_task (Some (Datetime 1700000000)) True)"
    by (simp add: example_task_def)
  from on_task_revoked [OF h] h show ?thesis by simp
qed

theorem qos_balance_witness:
  "list_all (successful example_env)
     [Ingest (example_task (Some (Datetime 1700000000)) False),
      Ingest (example_task (Some (Datetime 1700000060)) False),
      Fire (example_task (Some (Datetime 1700000000)) False)] \<and>
   qos_delta (run example_env (example_consumer True)
     [Ingest (example_task (Some (Datetime 1700000000)) False),
      Ingest (example_task (Some (Datetime 1700000060)) False),
      Fire (example_task (Some (Datetime 1700000000)) False)]) = 1"
proof -
  let ?ops = "[Ingest (example_task (Some (Datetime 1700000000)) False),
      Ingest (example_task (Some (Datetime 1700000060)) False),
      Fire (example_task (Some (Datetime 1700000000)) False)]"
  have h: "list_all (successful example_env) ?ops"
    by (simp add: eta_scheduled_def example_task_def example_env_def)
  have e: "qos_delta (run example_env (example_consumer True) ?ops) =
             int (length (filter is_ingest ?ops)) - int (length (filter is_fire ?ops))"
    using qos_balance [OF h, of "example_consumer True"] by (rule conjunct1)
  have n: "int (length (filter is_ingest ?ops)) - int (length (filter is_fire ?ops)) = 1"
    by simp
  from e n have "qos_delta (run example_env (example_consumer True) ?ops) = 1"
    by (rule trans)
  with h show ?thesis by (rule conjI)
qed

section \<open>Properties of the supervisory loop\<close>

text \<open>One test of the loop condition and what follows it, case by case.\<close>

lemma start_exit:
  "ns_state k w = CLOSE \<Longrightarrow> start k c (Suc n) w = Some ([], None, w)"
  by simp

lemma start_shutdown_signal:
  "ns_state k w \<noteq> CLOSE \<Longrightarrow> maybe_shutdown k w = (Some e, w1) \<Longrightarrow>
   start k c (Suc n) w = Some ([MaybeShutdown (Some e)], Some e, w1)"
  by simp

lemma start_iterate:
  "ns_state k w \<noteq> CLOSE \<Longrightarrow> maybe_shutdown k w = (None, w1) \<Longrightarrow>
   try_body k w1 = (tb, None, w2) \<Longrightarrow>
   start k c (Suc n) w = prepend (MaybeShutdown None # tb) (start k c n w2)"
  by simp

lemma start_retry:
  "ns_state k w \<noteq> CLOSE \<Longrightarrow> maybe_shutdown k w = (None, w1) \<Longrightarrow>
   try_body k w1 = (tb, Some e, w2) \<Longrightarrow> broker_error c e \<Longrightarrow>
   restart k w2 = (None, w3) \<Longrightarrow>
   start k c (Suc n) w =
     prepend (MaybeShutdown None # tb @ [Log ERROR CONNECTION_RETRY [] True, NsRestart None])
       (start k c n w3)"
  by simp

lemma start_restart_raises:
  "ns_state k w \<noteq> CLOSE \<Longrightarrow> maybe_shutdown k w = (None, w1) \<Longrightarrow>
   try_body k w1 = (tb, Some e, w2) \<Longrightarrow> broker_error c e \<Longrightarrow>
   restart k w2 = (Some e', w3) \<Longrightarrow>
   start k c (Suc n) w =
     Some (MaybeShutdown None # tb @ [Log ERROR CONNECTION_RETRY [] True, NsRestart (Some e')],
           Some e', w3)"
  by simp

lemma start_propagate:
  "ns_state k w \<noteq> CLOSE \<Longrightarrow> maybe_shutdown k w = (None, w1) \<Longrightarrow>
   try_body k w1 = (tb, Some e, w2) \<Longrightarrow> \<not> broker_error c e \<Longrightarrow>
   start k c (Suc n) w = Some (MaybeShutdown None # tb, Some e, w2)"
  by simp

lemma runs_start:
  assumes "runs k c w tr out w'" and "length tr < m"
  shows "start k c m w = Some (tr, out, w')"
  using assms
proof (induction arbitrary: m rule: runs.induct)
  case (closed w)
  then obtain n where "m = Suc n" by (cases m) auto
  with closed show ?case by (simp add: start_exit)
next
  case (shutdown_signal w e w1)
  then obtain n where "m = Suc n" by (cases m) auto
  with shutdown_signal show ?case by (simp add: start_shutdown_signal)
next
  case (iterate w w1 tb w2 tr out w')
  then obtain n where m: "m = Suc n" and n: "length tr < n" by (cases m) auto
  from iterate.IH [OF n] have "start k c n w2 = Some (tr, out, w')" .
  with iterate.hyps m show ?case
    by (simp add: start_iterate [where tb = tb and ?w2.0 = w2] prepend_def)
next
  case (retry w w1 tb e w2 w3 tr out w')
  then obtain n where m: "m = Suc n" and n: "length tr < n" by (cases m) auto
  from retry.IH [OF n] have "start k c n w3 = Some (tr, out, w')" .
  with retry.hyps m show ?case
    by (simp add: prepend_def)
next
  case (restart_raises w w1 tb e w2 e' w3)
  then obtain n where "m = Suc n" by (cases m) auto
  with restart_raises show ?case by simp
next
  case (propagate w w1 tb e w2)
  then obtain n where "m = Suc n" by (cases m) auto
  with propagate show ?case by simp
qed

lemma start_runs:
  assumes "start k c n w = Some (tr, out, w')"
  shows "runs k c w tr out w'"
  using assms
proof (induction n arbitrary: w tr out w')
  case 0
  then show ?case by simp
next
  case (Suc n)
  show ?case
  proof (cases "ns_state k w = CLOSE")
    case True
    with Suc.prems show ?thesis by (auto intro: runs.closed)
  next
    case False
    obtain r1 w1 where ms: "maybe_shutdown k w = (r1, w1)" by (cases "maybe_shutdown k w")
    show ?thesis
    proof (cases r1)
      case (Some e)
      with False ms Suc.prems show ?thesis by (auto intro: runs.shutdown_signal)
    next
      case None
      obtain tb r2 w2 where tb: "try_body k w1 = (tb, r2, w2)" by (cases "try_body k w1") auto
      show ?thesis
      proof (cases r2)
        case None
        with False ms \<open>r1 = None\<close> tb Suc.prems
        obtain tr' where rec: "start k c n w2 = Some (tr', out, w')"
          and tr: "tr = MaybeShutdown None # tb @ tr'"
          by (auto simp: prepend_def split: option.splits)
        from Suc.IH [OF rec] False ms \<open>r1 = None\<close> tb None tr show ?thesis
          by (auto intro: runs.iterate)
      next
        case (Some e)
        show ?thesis
        proof (cases "broker_error c e")
          case be: False
          with False ms \<open>r1 = None\<close> tb Some Suc.prems
          have "tr = MaybeShutdown None # tb" "out = Some e" "w' = w2" by auto
          with False ms \<open>r1 = None\<close> tb Some be show ?thesis
            by (auto intro: runs.propagate)
        next
          case be: True
          obtain r3 w3 where rs: "restart k w2 = (r3, w3)" by (cases "restart k w2")
          show ?thesis
          proof (cases r3)
            case (Some e')
            with be False ms \<open>r1 = None\<close> tb \<open>r2 = Some e\<close> rs Suc.prems
            have "tr = MaybeShutdown None # tb @
                         [Log ERROR CONNECTION_RETRY [] True, NsRestart (Some e')]"
              "out = Some e'" "w' = w3" by (auto simp: Let_def)
            with be False ms \<open>r1 = None\<close> tb \<open>r2 = Some e\<close> rs Some show ?thesis
              by (auto intro: runs.restart_raises)
          next
            case None
            with be False ms \<open>r1 = None\<close> tb \<open>r2 = Some e\<close> rs Suc.prems
            obtain tr' where rec: "start k c n w3 = Some (tr', out, w')"
              and tr: "tr = MaybeShutdown None # tb @
                              Log ERROR CONNECTION_RETRY [] True # NsRestart None # tr'"
              by (auto simp: prepend_def Let_def split: option.splits)
            from Suc.IH [OF rec] be False ms \<open>r1 = None\<close> tb \<open>r2 = Some e\<close> rs None tr
            show ?thesis by (auto intro: runs.retry)
          qed
        qed
      qed
    qed
  qed
qed

lemma try_body_calls:
  assumes "try_body k w = (tr, r, w2)"
  shows "body_calls (tr @ xs) = Some (r, xs)"
  using assms by (auto simp: try_body_def split: prod.splits option.splits)

lemma start_trace:
  assumes "start k c n w = Some (tr, out, w')"
  shows "supervised c tr out \<and> (out = None \<longrightarrow> ns_state k w' = CLOSE)"
  using assms
proof (induction n arbitrary: w tr out w')
  case 0
  then show ?case by simp
next
  case (Suc n)
  show ?case
  proof (cases "ns_state k w = CLOSE")
    case True
    with Suc.prems show ?thesis by simp
  next
    case False
    obtain r1 w1 where ms: "maybe_shutdown k w = (r1, w1)" by (cases "maybe_shutdown k w")
    show ?thesis
    proof (cases r1)
      case (Some e)
      with False ms Suc.prems show ?thesis by auto
    next
      case None
      obtain tb r2 w2 where tb: "try_body k w1 = (tb, r2, w2)" by (cases "try_body k w1") auto
      note bc = try_body_calls [OF tb]
      show ?thesis
      proof (cases r2)
        case None
        with False ms \<open>r1 = None\<close> tb Suc.prems
        obtain tr' where rec: "start k c n w2 = Some (tr', out, w')"
          and tr: "tr = MaybeShutdown None # tb @ tr'"
          by (auto simp: prepend_def split: option.splits)
        from Suc.IH [OF rec] show ?thesis
          using tr bc [of tr'] None by simp
      next
        case (Some e)
        show ?thesis
        proof (cases "broker_error c e")
          case False
          with \<open>ns_state k w \<noteq> CLOSE\<close> ms \<open>r1 = None\<close> tb Some Suc.prems
          have "tr = MaybeShutdown None # tb @ []" "out = Some e" by auto
          then show ?thesis using bc [of "[]"] Some False by simp
        next
          case True
          obtain r3 w3 where rs: "restart k w2 = (r3, w3)" by (cases "restart k w2")
          show ?thesis
          proof (cases r3)
            case (Some e')
            with True \<open>ns_state k w \<noteq> CLOSE\<close> ms \<open>r1 = None\<close> tb \<open>r2 = Some e\<close> rs Suc.prems
            have "tr = MaybeShutdown None # tb @
                         [Log ERROR CONNECTION_RETRY [] True, NsRestart (Some e')]"
              "out = Some e'" by (auto simp: Let_def)
            then show ?thesis
              using bc [of "[Log ERROR CONNECTION_RETRY [] True, NsRestart (Some e')]"]
                \<open>r2 = Some e\<close> True
              by simp
          next
            case None
            with True \<open>ns_state k w \<noteq> CLOSE\<close> ms \<open>r1 = None\<close> tb \<open>r2 = Some e\<close> rs Suc.prems
            obtain tr' where rec: "start k c n w3 = Some (tr', out, w')"
              and tr: "tr = MaybeShutdown None # tb @
                              Log ERROR CONNECTION_RETRY [] True # NsRestart None # tr'"
              by (auto simp: prepend_def Let_def split: option.splits)
            from Suc.IH [OF rec] show ?thesis
              using tr bc [of "Log ERROR CONNECTION_RETRY [] True # NsRestart None # tr'"]
                \<open>r2 = Some e\<close> True
              by simp
          qed
        qed
      qed
    qed
  qed
qed

lemma start_closed:
  assumes "start k c n w = Some (tr, out, w')" and "ns_state k w = CLOSE"
  shows "tr = [] \<and> out = None \<and> w' = w"
  using assms by (cases n) auto

text \<open>A larger bound does not change a result.\<close>

lemma start_more_fuel:
  assumes "start k c n w = Some r"
  shows "start k c (n + m) w = Some r"
  using assms
proof (induction n arbitrary: w r)
  case 0
  then show ?case by simp
next
  case (Suc n)
  have IH: "\<And>w r. start k c n w = Some r \<Longrightarrow> start k c (n + m) w = Some r"
    by (rule Suc.IH)
  have pre: "\<And>tr w. prepend tr (start k c n w) = Some r \<Longrightarrow>
               prepend tr (start k c (n + m) w) = Some r"
  proof -
    fix tr w assume a: "prepend tr (start k c n w) = Some r"
    then obtain r' where "start k c n w = Some r'"
      by (auto simp: prepend_def split: option.splits)
    with IH a show "prepend tr (start k c (n + m) w) = Some r" by simp
  qed
  from Suc.prems show ?case
    by (auto simp: Let_def split: if_splits prod.splits option.splits dest: pre)
qed

text \<open>
  C1. \<^verbatim>\<open>Consumer.start()\<close> does what \<open>runs\<close> describes, and only that. Whenever the
  collaborators make an execution of the description end, \<^verbatim>\<open>start()\<close> produces it under
  every bound larger than its number of calls: it leaves the loop as soon as the state
  is \<open>CLOSE\<close> at the loop test; a broker error of the boot steps or of the event loop
  gives the ERROR log of \<open>CONNECTION_RETRY\<close>, then \<^verbatim>\<open>restart()\<close>, then the loop test
  again; any other exception of theirs leaves \<^verbatim>\<open>start()\<close>. Conversely every result of
  \<^verbatim>\<open>start()\<close> is such an execution, its calls are a sequence of iterations as
  \<open>supervised\<close> reads them, it returns normally only in state \<open>CLOSE\<close>, and entered
  in state \<open>CLOSE\<close> it returns at once without a call.
\<close>

theorem start_supervised:
  "(runs k c w tr out w' \<and> length tr < m \<longrightarrow> start k c m w = Some (tr, out, w')) \<and>
   (start k c n w = Some (tr, out, w') \<longrightarrow>
      runs k c w tr out w' \<and>
      supervised c tr out \<and>
      (out = None \<longrightarrow> ns_state k w' = CLOSE) \<and>
      (ns_state k w = CLOSE \<longrightarrow> tr = [] \<and> out = None \<and> w' = w))"
  using runs_start [of k c w tr out w' m] start_runs [of k c n w tr out w']
    start_trace [of k c n w tr out w'] start_closed [of k c n w tr out w']
  by blast

theorem start_supervised_witness:
  "broker_error (example_consumer True) refused \<and>
   runs example_world (example_consumer True) 0
     [MaybeShutdown None, NsStart None, RunLoop (Some refused),
      Log ERROR CONNECTION_RETRY [] True, NsRestart None,
      MaybeShutdown None, NsStart None, RunLoop None] None 2 \<and>
   start example_world (example_consumer True) 9 0 =
     Some ([MaybeShutdown None, NsStart None, RunLoop (Some refused),
            Log ERROR CONNECTION_RETRY [] True, NsRestart None,
            MaybeShutdown None, NsStart None, RunLoop None], None, 2) \<and>
   supervised (example_consumer True)
     [MaybeShutdown None, NsStart None, RunLoop (Some refused),
      Log ERROR CONNECTION_RETRY [] True, NsRestart None,
      MaybeShutdown None, NsStart None, RunLoop None] None \<and>
   ns_state example_world 2 = CLOSE \<and>
   \<not> broker_error (example_consumer True) key_error \<and>
   runs (example_world\<lparr>ns_start := (\<lambda>w. (Some key_error, w))\<rparr>) (example_consumer True) 0
     [MaybeShutdown None, NsStart (Some key_error)] (Some key_error) 0 \<and>
   start (example_world\<lparr>ns_start := (\<lambda>w. (Some key_error, w))\<rparr>) (example_consumer True) 3 0 =
     Some ([MaybeShutdown None, NsStart (Some key_error)], Some key_error, 0)"
proof -
  let ?c = "example_consumer True"
  let ?tr = "[MaybeShutdown None, NsStart None, RunLoop (Some refused),
              Log ERROR CONNECTION_RETRY [] True, NsRestart None,
              MaybeShutdown None, NsStart None, RunLoop None]"
  let ?k = "example_world\<lparr>ns_start := (\<lambda>w. (Some key_error, w))\<rparr>"
  have b: "broker_error ?c refused"
    by (simp add: broker_error_def exn_matches_def example_consumer_def refused_def)
  have nb: "\<not> broker_error ?c key_error"
    by (simp add: broker_error_def exn_matches_def example_consumer_def key_error_def)
  have i3: "runs example_world ?c 2 [] None 2"
    by (rule runs.closed) (simp add: example_world_def)
  have i2: "runs example_world ?c 1 (MaybeShutdown None # [NsStart None, RunLoop None] @ []) None 2"
    by (rule runs.iterate [where ?w1.0 = 1 and ?w2.0 = 2, OF _ _ _ i3])
      (simp_all add: example_world_def try_body_def)
  have "runs example_world ?c 0
          (MaybeShutdown None # [NsStart None, RunLoop (Some refused)] @
           Log ERROR CONNECTION_RETRY [] True # NsRestart None #
           MaybeShutdown None # [NsStart None, RunLoop None] @ []) None 2"
    by (rule runs.retry [where ?w1.0 = 0 and ?w2.0 = 1 and ?w3.0 = 1 and e = refused, OF _ _ _ b _ i2])
      (simp_all add: example_world_def try_body_def)
  then have r: "runs example_world ?c 0 ?tr None 2" by simp
  have l: "length ?tr < 9" by simp
  from start_supervised [where k = example_world and c = ?c and w = 0 and tr = ?tr
      and out = None and w' = 2 and m = 9] r l
  have s: "start example_world ?c 9 0 = Some (?tr, None, 2)" by blast
  from start_supervised [where k = example_world and c = ?c and w = 0 and tr = ?tr
      and out = None and w' = 2 and n = 9] s
  have sup: "supervised ?c ?tr None" and cl: "ns_state example_world 2 = CLOSE" by blast+
  have "runs ?k ?c 0 (MaybeShutdown None # [NsStart (Some key_error)]) (Some key_error) 0"
    by (rule runs.propagate [where ?w1.0 = 0, OF _ _ _ nb])
      (simp_all add: example_world_def try_body_def)
  then have p: "runs ?k ?c 0 [MaybeShutdown None, NsStart (Some key_error)] (Some key_error) 0"
    by simp
  have "length [MaybeShutdown None, NsStart (Some key_error)] < 3" by simp
  with start_supervised [where k = ?k and c = ?c and w = 0
      and tr = "[MaybeShutdown None, NsStart (Some key_error)]"
      and out = "Some key_error" and w' = 0 and m = 3] p
  have sp: "start ?k ?c 3 0 =
              Some ([MaybeShutdown None, NsStart (Some key_error)], Some key_error, 0)"
    by blast
  from b r s sup cl nb p sp show ?thesis by (intro conjI)
qed

text \<open>An exception that is no broker error leaves \<^verbatim>\<open>start()\<close> from the first iteration.\<close>

lemma start_propagates_example:
  "start (example_world\<lparr>ns_start := (\<lambda>w. (Some key_error, w))\<rparr>) (example_consumer True) 1 0 =
     Some ([MaybeShutdown None, NsStart (Some key_error)], Some key_error, 0)"
  by (simp add: example_world_def try_body_def broker_error_def exn_matches_def
      example_consumer_def key_error_def)

section \<open>Properties of the shutdown\<close>

text \<open>The pass without force, when it ends normally.\<close>

lemma shutdown_step_first_Inr:
  assumes "shutdown_step False cs d = (tr, Inr d')"
  shows "shutdowns tr = filter (\<lambda>x. \<not> delay_shutdown x) (present cs) \<and>
         d' = d @ filter delay_shutdown (present cs)"
  using assms
proof (induction cs arbitrary: d tr)
  case Nil
  then show ?case by simp
next
  case (Cons a cs)
  show ?case
  proof (cases a)
    case None
    with Cons show ?thesis by simp
  next
    case (Some x)
    show ?thesis
    proof (cases "delay_shutdown x")
      case True
      with Some Cons.prems obtain tr' where
        rec: "shutdown_step False cs (d @ [x]) = (tr', Inr d')"
        and tr: "tr = Log DEBUG ''Shutdown %s...'' [AStr (qualname x)] False # tr'"
        by (auto simp: Let_def split: prod.splits)
      from Cons.IH [OF rec] tr Some True show ?thesis by simp
    next
      case False
      with Some Cons.prems obtain tr' where
        rec: "shutdown_step False cs d = (tr', Inr d')"
        and tr: "tr = Log DEBUG ''Shutdown %s...'' [AStr (qualname x)] False #
                      ComponentShutdown x # tr'"
        by (auto simp: Let_def split: prod.splits option.splits)
      from Cons.IH [OF rec] tr Some False show ?thesis by simp
    qed
  qed
qed

lemma shutdown_step_first_Inl:
  assumes "shutdown_step False cs d = (tr, Inl e)"
  shows "prefix (shutdowns tr) (filter (\<lambda>x. \<not> delay_shutdown x) (present cs))"
  using assms
proof (induction cs arbitrary: d tr)
  case Nil
  then show ?case by simp
next
  case (Cons a cs)
  show ?case
  proof (cases a)
    case None
    with Cons show ?thesis by simp
  next
    case (Some x)
    show ?thesis
    proof (cases "delay_shutdown x")
      case True
      with Some Cons.prems obtain tr' where
        rec: "shutdown_step False cs (d @ [x]) = (tr', Inl e)"
        and tr: "tr = Log DEBUG ''Shutdown %s...'' [AStr (qualname x)] False # tr'"
        by (auto simp: Let_def split: prod.splits)
      from Cons.IH [OF rec] tr Some True show ?thesis by simp
    next
      case False
      show ?thesis
      proof (cases "shutdown_raises x")
        case None
        with False Some Cons.prems obtain tr' where
          rec: "shutdown_step False cs d = (tr', Inl e)"
          and tr: "tr = Log DEBUG ''Shutdown %s...'' [AStr (qualname x)] False #
                        ComponentShutdown x # tr'"
          by (auto simp: Let_def split: prod.splits)
        from Cons.IH [OF rec] tr Some False show ?thesis by simp
      next
        case (Some e')
        with False \<open>a = Some x\<close> Cons.prems
        have "tr = [Log DEBUG ''Shutdown %s...'' [AStr (qualname x)] False, ComponentShutdown x]"
          by (auto simp: Let_def)
        with \<open>a = Some x\<close> False show ?thesis by simp
      qed
    qed
  qed
qed

lemma shutdown_step_force:
  assumes "shutdown_step True (map Some xs) d = (tr, r)"
  shows "prefix (shutdowns tr) xs \<and> (\<forall>d'. r = Inr d' \<longrightarrow> shutdowns tr = xs \<and> d' = d)"
  using assms
proof (induction xs arbitrary: tr)
  case Nil
  then show ?case by auto
next
  case (Cons x xs)
  then show ?case
    by (auto simp: Let_def split: prod.splits option.splits)
qed

lemma shutdown_step_returns:
  assumes "list_all (\<lambda>x. shutdown_raises x = None) (present cs)"
  shows "\<exists>tr d'. shutdown_step force cs d = (tr, Inr d')"
  using assms
proof (induction cs arbitrary: d)
  case Nil
  then show ?case by simp
next
  case (Cons a cs)
  show ?case
  proof (cases a)
    case None
    with Cons show ?thesis by simp
  next
    case (Some x)
    with Cons.prems have r: "shutdown_raises x = None"
      and rest: "list_all (\<lambda>x. shutdown_raises x = None) (present cs)" by simp_all
    from Cons.IH [OF rest] obtain tr1 d1 where
      a: "shutdown_step force cs (d @ [x]) = (tr1, Inr d1)" by blast
    from Cons.IH [OF rest] obtain tr2 d2 where
      b: "shutdown_step force cs d = (tr2, Inr d2)" by blast
    from a b r Some show ?thesis by (auto simp: Let_def)
  qed
qed

lemma present_map_Some: "present (map Some xs) = xs"
  by (induction xs) simp_all

lemma shutdowns_append: "shutdowns (xs @ ys) = shutdowns xs @ shutdowns ys"
  by (induction xs rule: shutdowns.induct) simp_all

lemma shutdown_order:
  "prefix (shutdowns (fst (shutdown parent)))
     (filter (\<lambda>x. \<not> delay_shutdown x) (present (components parent)) @
      filter delay_shutdown (present (components parent)))"
proof -
  obtain tr1 r1 where p1: "shutdown_step False (components parent) [] = (tr1, r1)"
    by (cases "shutdown_step False (components parent) []")
  show ?thesis
  proof (cases r1)
    case (Inl e)
    with p1 have "fst (shutdown parent) = tr1" by (simp add: shutdown_def)
    moreover from shutdown_step_first_Inl p1 Inl
    have "prefix (shutdowns tr1) (filter (\<lambda>x. \<not> delay_shutdown x) (present (components parent)))"
      by blast
    ultimately show ?thesis by (simp add: prefix_prefix)
  next
    case (Inr delayed)
    with shutdown_step_first_Inr p1
    have s1: "shutdowns tr1 = filter (\<lambda>x. \<not> delay_shutdown x) (present (components parent))"
      and d: "delayed = filter delay_shutdown (present (components parent))"
      by fastforce+
    obtain tr2 r2 where p2: "shutdown_step True (map Some delayed) [] = (tr2, r2)"
      by (cases "shutdown_step True (map Some delayed) []")
    from shutdown_step_force [OF p2] have s2: "prefix (shutdowns tr2) delayed" by blast
    from p1 Inr p2 have "fst (shutdown parent) = tr1 @ tr2"
      by (simp add: shutdown_def split: sum.splits)
    with s1 s2 d show ?thesis by (simp add: shutdowns_append)
  qed
qed

lemma shutdown_complete:
  assumes "list_all (\<lambda>x. shutdown_raises x = None) (present (components parent))"
  shows "\<exists>tr1 tr2.
           shutdown_step False (components parent) [] =
             (tr1, Inr (filter delay_shutdown (present (components parent)))) \<and>
           shutdowns tr1 = filter (\<lambda>x. \<not> delay_shutdown x) (present (components parent)) \<and>
           shutdown_step True (map Some (filter delay_shutdown (present (components parent)))) [] =
             (tr2, Inr []) \<and>
           shutdowns tr2 = filter delay_shutdown (present (components parent)) \<and>
           shutdown parent = (tr1 @ tr2, None)"
proof -
  let ?delayed = "filter delay_shutdown (present (components parent))"
  from shutdown_step_returns [OF assms] obtain tr1 d1 where
    p1: "shutdown_step False (components parent) [] = (tr1, Inr d1)" by blast
  from shutdown_step_first_Inr [OF p1]
  have s1: "shutdowns tr1 = filter (\<lambda>x. \<not> delay_shutdown x) (present (components parent))"
    and d1: "d1 = ?delayed" by simp_all
  from assms have "list_all (\<lambda>x. shutdown_raises x = None) (present (map Some ?delayed))"
    by (simp add: present_map_Some list_all_iff)
  from shutdown_step_returns [OF this] obtain tr2 d2 where
    p2: "shutdown_step True (map Some ?delayed) [] = (tr2, Inr d2)" by blast
  from shutdown_step_force [OF p2] have s2: "shutdowns tr2 = ?delayed" and d2: "d2 = []"
    by simp_all
  from p1 p2 d1 d2 have "shutdown parent = (tr1 @ tr2, None)"
    by (simp add: shutdown_def)
  with p1 p2 s1 s2 d1 d2 show ?thesis by blast
qed

text \<open>
  C2. \<^verbatim>\<open>Namespace.shutdown\<close> on any component list. The components whose
  \<^verbatim>\<open>shutdown(parent)\<close> is called, in the order of the calls, are a prefix of the
  components without \<^verbatim>\<open>delay_shutdown\<close> followed by the components with it: no component
  with the flag is shut down before every component without it has been. When no
  \<^verbatim>\<open>shutdown(parent)\<close> raises, the method returns normally; the pass without force calls
  \<^verbatim>\<open>shutdown(parent)\<close> on exactly the components without the flag and returns the ones
  with the flag; the pass with force calls it on exactly those.
\<close>

theorem shutdown_two_phase:
  "prefix (shutdowns (fst (shutdown parent)))
     (filter (\<lambda>x. \<not> delay_shutdown x) (present (components parent)) @
      filter delay_shutdown (present (components parent))) \<and>
   (list_all (\<lambda>x. shutdown_raises x = None) (present (components parent)) \<longrightarrow>
     (\<exists>tr1 tr2.
        shutdown_step False (components parent) [] =
          (tr1, Inr (filter delay_shutdown (present (components parent)))) \<and>
        shutdowns tr1 = filter (\<lambda>x. \<not> delay_shutdown x) (present (components parent)) \<and>
        shutdown_step True (map Some (filter delay_shutdown (present (components parent)))) [] =
          (tr2, Inr []) \<and>
        shutdowns tr2 = filter delay_shutdown (present (components parent)) \<and>
        shutdown parent = (tr1 @ tr2, None)))"
  using shutdown_order [of parent] shutdown_complete [of parent] by blast

theorem shutdown_two_phase_witness:
  "list_all (\<lambda>x. shutdown_raises x = None) (present (components (example_consumer True))) \<and>
   shutdowns (fst (shutdown (example_consumer True))) =
     [example_component ''Connection'' False, example_component ''Heart'' False,
      example_component ''Tasks'' True] \<and>
   snd (shutdown (example_consumer True)) = None"
proof -
  let ?p = "example_consumer True"
  have h: "list_all (\<lambda>x. shutdown_raises x = None) (present (components ?p))"
    by (simp add: example_consumer_def example_component_def)
  from shutdown_two_phase [of ?p] h obtain tr1 tr2 where
    s1: "shutdowns tr1 = filter (\<lambda>x. \<not> delay_shutdown x) (present (components ?p))"
    and s2: "shutdowns tr2 = filter delay_shutdown (present (components ?p))"
    and r: "shutdown ?p = (tr1 @ tr2, None)"
    by blast
  have "shutdowns (fst (shutdown ?p)) =
          filter (\<lambda>x. \<not> delay_shutdown x) (present (components ?p)) @
          filter delay_shutdown (present (components ?p))"
    using s1 s2 r by (simp add: shutdowns_append)
  also have "\<dots> = [example_component ''Connection'' False, example_component ''Heart'' False,
      example_component ''Tasks'' True]"
    by (simp add: example_consumer_def example_component_def)
  finally show ?thesis using h r by simp
qed

text \<open>The same shutdown, call by call.\<close>

lemma shutdown_example:
  "shutdown (example_consumer True) =
     ([Log DEBUG ''Shutdown %s...'' [AStr ''Connection''] False,
       ComponentShutdown (example_component ''Connection'' False),
       Log DEBUG ''Shutdown %s...'' [AStr ''Tasks''] False,
       Log DEBUG ''Shutdown %s...'' [AStr ''Heart''] False,
       ComponentShutdown (example_component ''Heart'' False),
       Log DEBUG ''Shutdown %s...'' [AStr ''Tasks''] False,
       ComponentShutdown (example_component ''Tasks'' True)], None)"
  by (simp add: shutdown_def example_consumer_def example_component_def)

section \<open>Properties of the connection step\<close>

lemma format_retry_step:
  "format_when CONNECTION_RETRY_STEP w = ''Trying again '' @ w @ ''...''"
  by (simp add: CONNECTION_RETRY_STEP_def)

lemma format_failover:
  "format_when CONNECTION_FAILOVER w = CONNECTION_FAILOVER"
  by (simp add: CONNECTION_FAILOVER_def)

text \<open>
  C6. The error handler, called with an exception and an interval as
  \<^verbatim>\<open>ensure_connection\<close> calls it, makes one ERROR log with the format
  \<open>CONNECTION_ERROR\<close> whose arguments are the URI of the connection, the exception
  and a continuation message. The message is the failover message exactly when the
  connection's \<^verbatim>\<open>alt\<close> is truthy and the interval is 0, and otherwise it is
  \<^verbatim>\<open>Trying again {when}...\<close> with \<^verbatim>\<open>humanize_seconds(interval, 'in', ' ')\<close> in the place of
  \<^verbatim>\<open>{when}\<close>.
\<close>

theorem error_handler_message:
  "\<exists>msg. error_handler ev conn exc interval None =
           Log ERROR CONNECTION_ERROR [AStr (as_uri conn), AExc exc, AStr msg] False \<and>
         (msg = CONNECTION_FAILOVER) = (alt_truthy conn \<and> interval = 0) \<and>
         msg = (if alt_truthy conn \<and> interval = 0 then ''Will retry using next failover.''
                else ''Trying again '' @ humanize_seconds ev interval ''in'' '' '' @ ''...'')"
proof (cases "alt_truthy conn \<and> interval = 0")
  case True
  then show ?thesis
    by (simp add: error_handler_def format_failover) (simp add: CONNECTION_FAILOVER_def)
next
  case False
  have "''Trying again '' @ humanize_seconds ev interval ''in'' '' '' @ ''...'' \<noteq>
        CONNECTION_FAILOVER"
    by (simp add: CONNECTION_FAILOVER_def)
  with False show ?thesis
    by (auto simp: error_handler_def format_retry_step)
qed

lemma error_handler_examples:
  "error_handler example_env (example_connection [''amqp://guest@standby:5672//''] None) refused 0 None =
     Log ERROR CONNECTION_ERROR
       [AStr ''amqp://guest@localhost:5672//'', AExc refused,
        AStr ''Will retry using next failover.''] False"
  "error_handler example_env (example_connection [''amqp://guest@standby:5672//''] None) refused 2 None =
     Log ERROR CONNECTION_ERROR
       [AStr ''amqp://guest@localhost:5672//'', AExc refused,
        AStr ''Trying again in 2.00 seconds...''] False"
  "error_handler example_env (example_connection [] None) refused 0 None =
     Log ERROR CONNECTION_ERROR
       [AStr ''amqp://guest@localhost:5672//'', AExc refused,
        AStr ''Trying again now...''] False"
  by (simp_all add: error_handler_def alt_truthy_def example_connection_def example_env_def
      format_retry_step format_failover) (simp add: CONNECTION_FAILOVER_def)

text \<open>
  C7. With \<^verbatim>\<open>BROKER_CONNECTION_RETRY\<close> false, \<^verbatim>\<open>_open_connection\<close> builds the connection and
  calls \<^verbatim>\<open>connect()\<close> on it once, and that is all it calls: no \<^verbatim>\<open>ensure_connection\<close>, no
  log of the error handler, no \<^verbatim>\<open>maybe_shutdown\<close>. It returns that connection when
  \<^verbatim>\<open>connect()\<close> returns, and the exception of \<^verbatim>\<open>connect()\<close> leaves it when \<^verbatim>\<open>connect()\<close>
  raises.
\<close>

theorem open_connection_no_retry:
  assumes "\<not> BROKER_CONNECTION_RETRY c"
  shows "fst (open_connection ev c) = [AppConnection (amqheartbeat c), Connect] \<and>
         length (filter is_connect (fst (open_connection ev c))) = 1 \<and>
         \<not> list_ex retry_machinery (fst (open_connection ev c)) \<and>
         snd (open_connection ev c) =
           (case connect (app_connection c (amqheartbeat c)) of
              None \<Rightarrow> Inr (app_connection c (amqheartbeat c))
            | Some e \<Rightarrow> Inl e)"
  using assms by (simp add: open_connection_def Let_def split: option.splits)

theorem open_connection_no_retry_witness:
  "\<not> BROKER_CONNECTION_RETRY (example_consumer False) \<and>
   open_connection example_env (example_consumer False) =
     ([AppConnection 0, Connect], Inl refused)"
proof -
  have h: "\<not> BROKER_CONNECTION_RETRY (example_consumer False)"
    by (simp add: example_consumer_def)
  from open_connection_no_retry [OF h, of example_env] h show ?thesis
    by (simp add: prod_eq_iff example_consumer_def example_connection_def)
qed

text \<open>With the setting true the same Consumer goes through \<^verbatim>\<open>ensure_connection\<close>.\<close>

lemma open_connection_retry_example:
  "fst (open_connection example_env (example_consumer True)) =
     [AppConnection 0, EnsureConnection (Some 100),
      Log ERROR CONNECTION_ERROR
        [AStr ''amqp://guest@localhost:5672//'', AExc refused,
         AStr ''Trying again in 2.00 seconds...''] False,
      MaybeShutdown None]"
  by (simp add: open_connection_def example_consumer_def example_connection_def
      error_handler_def alt_truthy_def example_env_def format_retry_step)

section \<open>Properties of the message classifiers\<close>

text \<open>
  C8. \<^verbatim>\<open>on_decode_error\<close> makes two calls: a CRITICAL log whose arguments are the
  exception, the content type, the content encoding and the dump of the raw body, and
  then \<^verbatim>\<open>message.ack()\<close>. No call rejects the message or reaches the ready queue or the
  timer.
\<close>

theorem on_decode_error_acks:
  "on_decode_error m exc =
     [Log CRITICAL ''Can't decode message body: %r (type:%r encoding:%r raw:%r')''
        [AExc exc, AStr (content_type m), AStr (content_encoding m), ADumpBody m (body m)]
        False,
      MessageAck m] \<and>
   \<not> list_ex (\<lambda>x. is_reject x \<or> touches_ready_queue x \<or> touches_timer x)
       (on_decode_error m exc)"
  by (simp add: on_decode_error_def)

lemma on_decode_error_example:
  "on_decode_error example_message key_error =
     [Log CRITICAL ''Can't decode message body: %r (type:%r encoding:%r raw:%r')''
        [AExc key_error, AStr ''application/json'', AStr ''utf-8'',
         ADumpBody example_message ''{]''] False,
      MessageAck example_message]"
  by (simp add: on_decode_error_def example_message_def)

text \<open>The sibling for an unknown task does reject.\<close>

lemma handle_unknown_task_rejects:
  "list_ex is_reject (handle_unknown_task b m exc)"
  by (simp add: handle_unknown_task_def)

section \<open>Properties of the introspection\<close>

text \<open>
  C9. \<^verbatim>\<open>info\<close> returns a dictionary whose keys are exactly \<^verbatim>\<open>'broker'\<close> and
  \<^verbatim>\<open>'prefetch_count'\<close>; \<^verbatim>\<open>'prefetch_count'\<close> is \<^verbatim>\<open>qos.value\<close>; \<^verbatim>\<open>'broker'\<close> is the mapping of
  \<^verbatim>\<open>connection.info()\<close> restricted to the keys other than \<^verbatim>\<open>'password'\<close> when there is a
  connection, and the empty mapping when there is none.
\<close>

theorem info_keys:
  "dom (info c) = {''broker'', ''prefetch_count''} \<and>
   info c ''prefetch_count'' = Some (VInt (qos_value c)) \<and>
   info c ''broker'' =
     Some (VDict (case connection c of
                    None \<Rightarrow> Map.empty
                  | Some conn \<Rightarrow> conn_info conn |` (- {''password''})))"
proof -
  have "\<And>m::string \<rightharpoonup> pyval. m(''password'' := None) = m |` (- {''password''})"
    by (auto simp: restrict_map_def fun_eq_iff)
  then show ?thesis
    by (auto simp: info_def Let_def split: option.splits)
qed

lemma info_example:
  "info (example_consumer True) ''broker'' = Some (VDict [''hostname'' \<mapsto> PStr ''localhost''])"
  by (auto simp: info_def example_consumer_def example_connection_def fun_eq_iff)

section \<open>Properties of the start hook\<close>

lemma init_callbacks_start:
  "length (filter is_init_callback (namespace_start on_start parent)) = 1"
proof -
  have "filter is_init_callback (map ComponentStart xs) = []" for xs
    by (induction xs) simp_all
  then show ?thesis by (simp add: namespace_start_def on_start_def)
qed

text \<open>
  C10. \<^verbatim>\<open>on_start\<close> calls \<^verbatim>\<open>update_strategies\<close> and then \<^verbatim>\<open>init_callback\<close>. As the start
  hook of the namespace it runs in every start of the namespace, so each start calls
  \<^verbatim>\<open>init_callback\<close> once and \<open>n\<close> starts call it \<open>n\<close> times, not once.
\<close>

theorem init_callback_every_start:
  "on_start = [UpdateStrategies, InitCallback] \<and>
   length (filter is_init_callback (namespace_start on_start parent)) = 1 \<and>
   length (filter is_init_callback (starts n parent)) = n"
proof -
  have "length (filter is_init_callback (starts n parent)) = n"
    by (induction n) (simp_all add: init_callbacks_start)
  then show ?thesis by (simp add: init_callbacks_start) (simp add: on_start_def)
qed

end
